theory Spec2Isabelle
  imports Complex_Main "HOL-Library.Log_Nat" "HOL-Library.Sublist" "HOL-Library.Multiset"
begin

section \<open>JavaScript numbers\<close>

text \<open>
  A JavaScript \<^verbatim>\<open>number\<close> is an IEEE-754 binary64 value. The finite ones are
  rationals; every arithmetic operation computes the exact result and rounds it to the
  nearest value with a 53-bit significand, ties to the even significand. \<open>NaN\<close> and
  the infinities are outside this type; where the code can produce them (a division by
  zero, \<^verbatim>\<open>Date.parse\<close> of garbage) the model gives them a constructor of their own.
  Below \<open>2 powi - 1022\<close> the spacing stays that of the subnormal numbers. A result too
  large for the format is an infinity: see \<open>to_double\<close> further down. Signed zeros are
  not told apart.
\<close>

type_synonym number = rat

definition expo :: "rat \<Rightarrow> int" where
  \<comment> \<open>the binary exponent of a non-zero value: \<open>2 powi expo x \<le> \<bar>x\<bar> < 2 powi (expo x + 1)\<close>\<close>
  "expo x = (if 1 \<le> \<bar>x\<bar> then bitlen \<lfloor>\<bar>x\<bar>\<rfloor> - 1 else - bitlen (\<lceil>1 / \<bar>x\<bar>\<rceil> - 1))"

definition rne :: "rat \<Rightarrow> int" where
  \<comment> \<open>round to the nearest integer, ties to even\<close>
  "rne q = (let f = \<lfloor>q\<rfloor>; r = q - of_int f
            in if r < 1 / 2 then f else if 1 / 2 < r then f + 1
               else if even f then f else f + 1)"

definition fl :: "rat \<Rightarrow> number" where
  \<comment> \<open>round to binary64 (the exponent not bounded above)\<close>
  "fl x = (if x = 0 then 0
           else (let u = 2 powi (max (expo x) (- 1022) - 52) in of_int (rne (x / u)) * u))"

definition fmul :: "number \<Rightarrow> number \<Rightarrow> number" where
  \<comment> \<open>\<^verbatim>\<open>x * y\<close>\<close>
  "fmul x y = fl (x * y)"


definition Math_round :: "number \<Rightarrow> number" where
  \<comment> \<open>\<^verbatim>\<open>Math.round\<close>: the nearest integer, a tie going towards \<open>+\<infinity>\<close>\<close>
  "Math_round x = of_int \<lfloor>x + 1 / 2\<rfloor>"

definition Math_max :: "number \<Rightarrow> number \<Rightarrow> number" where
  "Math_max x y = (if x < y then y else x)"

section \<open>Data model (types.ts)\<close>

datatype LOD = HIGH | MED | LOW

datatype Category = Film | Character | Environment | Product

datatype Shape = Box | Sphere | Torus | Cylinder

record Asset =
  id' :: string
  name :: string
  polyCount :: number
  sizeMB :: number
  tags :: "string list"
  createdAt :: string
  shape :: Shape
  color :: "string option"
  category :: "Category option"
  gltfUrl :: "string option"

section \<open>The compression transform (lib/simulateCompression)\<close>

text \<open>The literals \<^verbatim>\<open>0.7\<close>, \<^verbatim>\<open>0.4\<close>, \<^verbatim>\<open>0.2\<close>, \<^verbatim>\<open>0.8\<close> denote the nearest doubles;
  \<^verbatim>\<open>0.5\<close> and \<^verbatim>\<open>0.25\<close> are doubles already.\<close>

definition lit_0_7 :: number where "lit_0_7 = fl (7 / 10)"
definition lit_0_4 :: number where "lit_0_4 = fl (4 / 10)"
definition lit_0_2 :: number where "lit_0_2 = fl (2 / 10)"
definition lit_0_8 :: number where "lit_0_8 = fl (8 / 10)"
definition lit_0_5 :: number where "lit_0_5 = 1 / 2"
definition lit_0_25 :: number where "lit_0_25 = 1 / 4"

definition simulateCompression :: "Asset \<Rightarrow> LOD \<Rightarrow> Asset" where
  "simulateCompression a lod =
     (let lodFactor = (if lod = HIGH then lit_0_7 else if lod = MED then lit_0_4 else lit_0_2);
          texFactor = (if lod = HIGH then lit_0_8 else if lod = MED then lit_0_5 else lit_0_25)
      in a\<lparr>polyCount := Math_max 10000 (Math_round (fmul (polyCount a) lodFactor)),
            sizeMB := Math_max 20 (Math_round (fmul (sizeMB a) texFactor))\<rparr>)"

text \<open>The factor tables as the specification gives them, and repeated application at
  one level.\<close>

fun geometryFactor :: "LOD \<Rightarrow> number" where
  "geometryFactor HIGH = lit_0_7"
| "geometryFactor MED = lit_0_4"
| "geometryFactor LOW = lit_0_2"

fun textureFactor :: "LOD \<Rightarrow> number" where
  "textureFactor HIGH = lit_0_8"
| "textureFactor MED = lit_0_5"
| "textureFactor LOW = lit_0_25"

definition repeated :: "LOD \<Rightarrow> nat \<Rightarrow> Asset \<Rightarrow> Asset" where
  "repeated l n a = ((\<lambda>b. simulateCompression b l) ^^ n) a"


definition INITIAL_ASSETS :: "Asset list" where
  "INITIAL_ASSETS =
    [\<lparr>id' = ''1'', name = ''Hero Shield'', polyCount = 820000, sizeMB = 180,
       tags = [''prop'', ''hero''], createdAt = ''2025-09-01T12:00:00Z'', shape = Cylinder,
       color = Some ''#e11d48'', category = Some Film, gltfUrl = None\<rparr>,
     \<lparr>id' = ''2'', name = ''Explorer Helmet'', polyCount = 1350000, sizeMB = 420,
       tags = [''helmet'', ''character''], createdAt = ''2025-08-21T09:00:00Z'', shape = Sphere,
       color = Some ''#f59e0b'', category = Some Character, gltfUrl = Some ''/models/helmet.glb''\<rparr>,
     \<lparr>id' = ''3'', name = ''City Billboard'', polyCount = 240000, sizeMB = 95,
       tags = [''environment'', ''marketing''], createdAt = ''2025-07-15T17:30:00Z'', shape = Box,
       color = Some ''#6366f1'', category = Some Environment, gltfUrl = None\<rparr>,
     \<lparr>id' = ''4'', name = ''Studio Lamp'', polyCount = 300000, sizeMB = 120,
       tags = [''prop'', ''lighting''], createdAt = ''2025-05-25T08:00:00Z'', shape = Torus,
       color = Some ''#fbbf24'', category = Some Product, gltfUrl = None\<rparr>]"

section \<open>The reducer (App.tsx)\<close>

record State =
  assets :: "Asset list"
  selectedId :: "string option"
  filter' :: string
  lod :: LOD

datatype Action =
    Select string
  | Filter string
  | Set_lod LOD
  | Compress_selected LOD

fun findIndex :: "('a \<Rightarrow> bool) \<Rightarrow> 'a list \<Rightarrow> int" where
  \<comment> \<open>\<^verbatim>\<open>Array.prototype.findIndex\<close>: the first index whose element passes, or \<open>-1\<close>\<close>
  "findIndex P [] = - 1"
| "findIndex P (x # xs) =
     (if P x then 0 else (let i = findIndex P xs in if i = - 1 then - 1 else i + 1))"

definition falsy :: "string option \<Rightarrow> bool" where
  \<comment> \<open>\<^verbatim>\<open>!v\<close> for a \<^verbatim>\<open>string | null\<close>: \<^verbatim>\<open>null\<close> and the empty string are falsy\<close>
  "falsy v = (case v of None \<Rightarrow> True | Some s \<Rightarrow> s = [])"

text \<open>What a call of the reducer returns: the very object it was given
  (\<^verbatim>\<open>return state\<close>), or an object it has just built.\<close>

datatype 's returned = Same_reference | New_object 's

fun reducer_returns :: "State \<Rightarrow> Action \<Rightarrow> State returned" where
  "reducer_returns state (Select i) = New_object (state\<lparr>selectedId := Some i\<rparr>)"
| "reducer_returns state (Filter q) = New_object (state\<lparr>filter' := q\<rparr>)"
| "reducer_returns state (Set_lod l) = New_object (state\<lparr>lod := l\<rparr>)"
| "reducer_returns state (Compress_selected l) =
     (if falsy (selectedId state) then Same_reference
      else (let idx = findIndex (\<lambda>a. Some (id' a) = selectedId state) (assets state)
            in if idx = - 1 then Same_reference
               else (let next = simulateCompression (assets state ! nat idx) l
                     in New_object (state\<lparr>assets := (assets state)[nat idx := next]\<rparr>))))"

definition reducer :: "State \<Rightarrow> Action \<Rightarrow> State" where
  "reducer state action =
     (case reducer_returns state action of Same_reference \<Rightarrow> state | New_object s \<Rightarrow> s)"

fun replay :: "State \<Rightarrow> Action list \<Rightarrow> State" where
  \<comment> \<open>dispatching a sequence of actions, first to last\<close>
  "replay state [] = state"
| "replay state (a # as) = replay (reducer state a) as"

section \<open>Facts about rounding\<close>

lemma rne_close: "\<bar>of_int (rne q) - q\<bar> \<le> 1 / 2"
proof -
  have "of_int \<lfloor>q\<rfloor> \<le> q" "q < of_int \<lfloor>q\<rfloor> + 1" by linarith+
  then show ?thesis by (auto simp: rne_def Let_def)
qed

lemma expo_lower:
  assumes "x \<noteq> 0"
  shows "2 powi (expo x) \<le> \<bar>x\<bar>"
proof (cases "1 \<le> \<bar>x\<bar>")
  case True
  let ?n = "\<lfloor>\<bar>x\<bar>\<rfloor>"
  from True have pos: "0 < ?n" by linarith
  then have b1: "1 \<le> bitlen ?n" by (simp add: bitlen_alt_def)
  from bitlen_bounds [OF pos] have "2 ^ nat (bitlen ?n - 1) \<le> ?n" by simp
  then have A: "(of_int (2 ^ nat (bitlen ?n - 1)) :: rat) \<le> of_int ?n"
    by (simp only: of_int_le_iff)
  have B: "(of_int (2 ^ nat (bitlen ?n - 1)) :: rat) = 2 ^ nat (bitlen ?n - 1)" by simp
  have "of_int ?n \<le> \<bar>x\<bar>" by linarith
  with A B have "(2::rat) ^ nat (bitlen ?n - 1) \<le> \<bar>x\<bar>" by linarith
  with True b1 show ?thesis by (simp add: expo_def power_int_def)
next
  case False
  let ?y = "1 / \<bar>x\<bar>"
  let ?c = "\<lceil>?y\<rceil>"
  let ?m = "bitlen (?c - 1)"
  from False assms have x01: "0 < \<bar>x\<bar>" "\<bar>x\<bar> < 1" by auto
  then have "1 < ?y" by simp
  then have pos: "0 < ?c - 1" by linarith
  from bitlen_bounds [OF pos] have "?c - 1 < 2 ^ nat ?m" by simp
  then have "?c \<le> 2 ^ nat ?m" by simp
  then have A: "(of_int ?c :: rat) \<le> of_int (2 ^ nat ?m)" by (simp only: of_int_le_iff)
  have B: "(of_int (2 ^ nat ?m) :: rat) = 2 ^ nat ?m" by simp
  have "?y \<le> of_int ?c" by linarith
  with A B have "?y \<le> 2 ^ nat ?m" by linarith
  with x01 have "1 / 2 ^ nat ?m \<le> \<bar>x\<bar>"
    by (simp add: field_simps)
  moreover have "0 \<le> ?m" by (rule bitlen_nonneg)
  ultimately show ?thesis using False
    by (auto simp: expo_def power_int_def field_simps)
qed

lemma expo_upper:
  assumes "x \<noteq> 0"
  shows "\<bar>x\<bar> < 2 powi (expo x + 1)"
proof (cases "1 \<le> \<bar>x\<bar>")
  case True
  let ?n = "\<lfloor>\<bar>x\<bar>\<rfloor>"
  from True have pos: "0 < ?n" by linarith
  then have b1: "1 \<le> bitlen ?n" by (simp add: bitlen_alt_def)
  from bitlen_bounds [OF pos] have "?n + 1 \<le> 2 ^ nat (bitlen ?n)" by simp
  then have A: "(of_int (?n + 1) :: rat) \<le> of_int (2 ^ nat (bitlen ?n))"
    by (simp only: of_int_le_iff)
  have B: "(of_int (2 ^ nat (bitlen ?n)) :: rat) = 2 ^ nat (bitlen ?n)" by simp
  have "\<bar>x\<bar> < of_int (?n + 1)" by linarith
  with A B have "\<bar>x\<bar> < 2 ^ nat (bitlen ?n)" by linarith
  with True b1 show ?thesis by (simp add: expo_def power_int_def)
next
  case False
  let ?y = "1 / \<bar>x\<bar>"
  let ?c = "\<lceil>?y\<rceil>"
  let ?m = "bitlen (?c - 1)"
  from False assms have x01: "0 < \<bar>x\<bar>" "\<bar>x\<bar> < 1" by auto
  then have "1 < ?y" by simp
  then have pos: "0 < ?c - 1" by linarith
  then have m1: "1 \<le> ?m" by (simp add: bitlen_alt_def)
  from bitlen_bounds [OF pos] have "2 ^ nat (?m - 1) \<le> ?c - 1" by simp
  then have A: "(of_int (2 ^ nat (?m - 1)) :: rat) \<le> of_int (?c - 1)"
    by (simp only: of_int_le_iff)
  have B: "(of_int (2 ^ nat (?m - 1)) :: rat) = 2 ^ nat (?m - 1)" by simp
  have "of_int (?c - 1) < ?y" by linarith
  with A B have "2 ^ nat (?m - 1) < ?y" by linarith
  with x01 have lt: "\<bar>x\<bar> < 1 / 2 ^ nat (?m - 1)"
    by (simp add: field_simps)
  have e: "expo x + 1 = - (?m - 1)" using False by (simp add: expo_def)
  have "(2::rat) powi (- (?m - 1)) = 1 / 2 ^ nat (?m - 1)"
    using m1 by (simp add: power_int_def field_simps)
  with lt e show ?thesis by simp
qed

lemma fl_error:
  assumes "x \<noteq> 0"
  shows "\<bar>fl x - x\<bar> \<le> \<bar>x\<bar> / 2 ^ 53 + 1 / 2 ^ 1075"
proof -
  define e where "e = max (expo x) (- 1022)"
  define u :: rat where "u = 2 powi (e - 52)"
  define t :: rat where "t = 1 / 2 ^ 1075"
  have upos: "0 < u" by (simp add: u_def)
  have tpos: "0 \<le> t" by (simp add: t_def)
  have "fl x - x = (of_int (rne (x / u)) - x / u) * u"
    using assms upos by (simp add: fl_def Let_def u_def [symmetric] e_def [symmetric] field_simps)
  then have "\<bar>fl x - x\<bar> = \<bar>of_int (rne (x / u)) - x / u\<bar> * u"
    using upos by (simp add: abs_mult)
  also have "\<dots> \<le> (1 / 2) * u"
    using rne_close [of "x / u"] upos by (intro mult_right_mono) auto
  finally have half: "\<bar>fl x - x\<bar> \<le> u / 2" by simp
  have "\<bar>fl x - x\<bar> \<le> \<bar>x\<bar> / 2 ^ 53 + t"
  proof (cases "- 1022 \<le> expo x")
    case True
    then have "u * 2 ^ 52 = 2 powi (expo x)"
      by (simp add: u_def e_def power_int_diff)
    then have "u / 2 = 2 powi (expo x) / 2 ^ 53" by (simp add: field_simps)
    also have "\<dots> \<le> \<bar>x\<bar> / 2 ^ 53"
      using expo_lower [OF assms] by (intro divide_right_mono) auto
    finally have "u / 2 \<le> \<bar>x\<bar> / 2 ^ 53" .
    with tpos half show ?thesis by linarith
  next
    case False
    then have "u = 2 powi (- 1074)" by (simp add: u_def e_def)
    then have "u / 2 = t" by (simp add: t_def power_int_def field_simps)
    moreover have "0 \<le> \<bar>x\<bar> / 2 ^ 53" by simp
    ultimately show ?thesis using half by linarith
  qed
  then show ?thesis by (simp only: t_def)
qed

lemma d07: "lit_0_7 = 6305039478318694 / 9007199254740992" by code_simp
lemma d04: "lit_0_4 = 3602879701896397 / 9007199254740992" by code_simp
lemma d02: "lit_0_2 = 3602879701896397 / 18014398509481984" by code_simp
lemma d08: "lit_0_8 = 3602879701896397 / 4503599627370496" by code_simp

lemma fl_upper:
  assumes "x \<le> B" "0 \<le> B"
  shows "fl x \<le> B * (1001 / 1000) + 1 / 1000"
proof (cases "x = 0")
  case True
  with assms show ?thesis by (simp add: fl_def)
next
  case False
  have tiny: "(1::rat) / 2 ^ 1075 \<le> 1 / 1000" by simp
  have rel: "(1::rat) / 2 ^ 53 \<le> 1 / 1000" by simp
  from fl_error [OF False] have e: "fl x \<le> x + \<bar>x\<bar> / 2 ^ 53 + 1 / 2 ^ 1075" by linarith
  show ?thesis
  proof (cases "0 \<le> x")
    case True
    then have "x * (1 / 2 ^ 53) \<le> x * (1 / 1000)" using rel by (intro mult_left_mono) auto
    moreover have "x * (1001 / 1000) \<le> B * (1001 / 1000)"
      using assms by (intro mult_right_mono) auto
    ultimately show ?thesis using e True tiny by (simp add: field_simps)
  next
    case False
    then have "x + \<bar>x\<bar> / 2 ^ 53 \<le> 0" by (simp add: field_simps)
    with e tiny have "fl x \<le> 1 / 1000" by linarith
    moreover have "0 \<le> B * (1001 / 1000)" using assms by simp
    ultimately show ?thesis by linarith
  qed
qed

lemma Math_round_le: "Math_round x \<le> x + 1 / 2"
  unfolding Math_round_def by linarith

lemma Math_round_ge: "x - 1 / 2 < Math_round x"
  unfolding Math_round_def by linarith

lemma Math_round_mono: "x \<le> y \<Longrightarrow> Math_round x \<le> Math_round y"
  unfolding Math_round_def by (simp add: floor_mono)


lemma geometryFactor_range: "0 \<le> geometryFactor l \<and> geometryFactor l \<le> 81 / 100"
  by (cases l) (simp_all add: d07 d04 d02)

lemma textureFactor_range: "0 \<le> textureFactor l \<and> textureFactor l \<le> 81 / 100"
  by (cases l) (simp_all add: d08 lit_0_5_def lit_0_25_def)

lemma polyCount_simulateCompression:
  "polyCount (simulateCompression a l) =
     Math_max 10000 (Math_round (fmul (polyCount a) (geometryFactor l)))"
  by (cases l) (simp_all add: simulateCompression_def)

lemma sizeMB_simulateCompression:
  "sizeMB (simulateCompression a l) =
     Math_max 20 (Math_round (fmul (sizeMB a) (textureFactor l)))"
  by (cases l) (simp_all add: simulateCompression_def)

lemma round_fmul_upper:
  assumes c: "0 \<le> c" "c \<le> 81 / 100" and p: "p \<le> B" "0 \<le> B"
  shows "Math_round (fmul p c) \<le> B * (81 / 100) * (1001 / 1000) + 1 / 1000 + 1 / 2"
proof -
  have "p * c \<le> B * c" using c p by (intro mult_right_mono) auto
  also have "\<dots> \<le> B * (81 / 100)" using c p by (intro mult_left_mono) auto
  finally have "fl (p * c) \<le> B * (81 / 100) * (1001 / 1000) + 1 / 1000"
    using p by (intro fl_upper) auto
  with Math_round_le [of "fmul p c"] show ?thesis by (simp add: fmul_def)
qed

lemma round_fmul_less:
  assumes c: "0 \<le> c" "c \<le> 81 / 100" and p: "3 \<le> p"
  shows "Math_round (fmul p c) < p"
proof -
  have "Math_round (fmul p c) \<le> p * (81 / 100) * (1001 / 1000) + 1 / 1000 + 1 / 2"
    using c p by (intro round_fmul_upper) auto
  also have "\<dots> < p" using p by simp
  finally show ?thesis .
qed

lemma Math_max_ge: "x \<le> Math_max x y" "y \<le> Math_max x y"
  by (simp_all add: Math_max_def)

lemma polyCount_at_floor:
  assumes "polyCount a \<le> 10000"
  shows "polyCount (simulateCompression a l) = 10000"
proof -
  have "Math_round (fmul (polyCount a) (geometryFactor l))
          \<le> 10000 * (81 / 100) * (1001 / 1000) + 1 / 1000 + 1 / 2"
    using geometryFactor_range [of l] assms by (intro round_fmul_upper) auto
  also have "\<dots> < 10000" by simp
  finally show ?thesis by (simp add: polyCount_simulateCompression Math_max_def)
qed

lemma sizeMB_at_floor:
  assumes "sizeMB a \<le> 20"
  shows "sizeMB (simulateCompression a l) = 20"
proof -
  have "Math_round (fmul (sizeMB a) (textureFactor l))
          \<le> 20 * (81 / 100) * (1001 / 1000) + 1 / 1000 + 1 / 2"
    using textureFactor_range [of l] assms by (intro round_fmul_upper) auto
  also have "\<dots> < 20" by simp
  finally show ?thesis by (simp add: sizeMB_simulateCompression Math_max_def)
qed

lemma polyCount_shrinks:
  assumes "10000 < polyCount a"
  shows "polyCount (simulateCompression a l) < polyCount a"
proof -
  have "Math_round (fmul (polyCount a) (geometryFactor l)) < polyCount a"
    using geometryFactor_range [of l] assms by (intro round_fmul_less) auto
  with assms show ?thesis by (simp add: polyCount_simulateCompression Math_max_def)
qed

lemma sizeMB_shrinks:
  assumes "20 < sizeMB a"
  shows "sizeMB (simulateCompression a l) < sizeMB a"
proof -
  have "Math_round (fmul (sizeMB a) (textureFactor l)) < sizeMB a"
    using textureFactor_range [of l] assms by (intro round_fmul_less) auto
  with assms show ?thesis by (simp add: sizeMB_simulateCompression Math_max_def)
qed

lemma polyCount_integral: "polyCount (simulateCompression a l) \<in> \<int>"
  by (simp add: polyCount_simulateCompression Math_max_def Math_round_def)

lemma sizeMB_integral: "sizeMB (simulateCompression a l) \<in> \<int>"
  by (simp add: sizeMB_simulateCompression Math_max_def Math_round_def)

lemma repeated_Suc: "repeated l (Suc n) a = repeated l n (simulateCompression a l)"
  unfolding repeated_def by (simp only: funpow_Suc_right o_apply)

lemma repeated_Suc': "repeated l (Suc n) a = simulateCompression (repeated l n a) l"
  by (simp add: repeated_def)

lemma polyCount_stays:
  "polyCount a \<le> 10000 \<Longrightarrow> polyCount (repeated l (Suc n) a) = 10000"
  by (induction n) (simp_all add: repeated_Suc' polyCount_at_floor repeated_def)

lemma sizeMB_stays:
  "sizeMB a \<le> 20 \<Longrightarrow> sizeMB (repeated l (Suc n) a) = 20"
  by (induction n) (simp_all add: repeated_Suc' sizeMB_at_floor repeated_def)

lemma polyCount_reaches:
  assumes "polyCount a \<in> \<int>"
  shows "\<exists>N. \<forall>n\<ge>N. polyCount (repeated l n a) = 10000"
  using assms
proof (induction "nat \<lfloor>polyCount a\<rfloor>" arbitrary: a rule: less_induct)
  case less
  show ?case
  proof (cases "polyCount a \<le> 10000")
    case True
    have "\<forall>n\<ge>1. polyCount (repeated l n a) = 10000"
    proof (intro allI impI)
      fix n :: nat assume "1 \<le> n"
      then obtain m where "n = Suc m" by (cases n) auto
      with True show "polyCount (repeated l n a) = 10000" by (simp add: polyCount_stays)
    qed
    then show ?thesis ..
  next
    case False
    let ?b = "simulateCompression a l"
    from False have lt: "polyCount ?b < polyCount a" by (intro polyCount_shrinks) simp
    have ge: "10000 \<le> polyCount ?b"
      by (simp add: polyCount_simulateCompression Math_max_ge)
    from less.prems obtain i where i: "polyCount a = of_int i" by (auto elim: Ints_cases)
    from polyCount_integral [of a l] obtain j where j: "polyCount ?b = of_int j"
      by (auto elim: Ints_cases)
    from lt ge i j have "nat \<lfloor>polyCount ?b\<rfloor> < nat \<lfloor>polyCount a\<rfloor>" by simp
    from less.hyps [OF this polyCount_integral]
    obtain N where N: "\<forall>n\<ge>N. polyCount (repeated l n ?b) = 10000" by blast
    have "\<forall>n\<ge>Suc N. polyCount (repeated l n a) = 10000"
    proof (intro allI impI)
      fix n assume "Suc N \<le> n"
      then obtain m where "n = Suc m" "N \<le> m" by (cases n) auto
      with N show "polyCount (repeated l n a) = 10000" by (simp add: repeated_Suc)
    qed
    then show ?thesis ..
  qed
qed

lemma sizeMB_reaches:
  assumes "sizeMB a \<in> \<int>"
  shows "\<exists>N. \<forall>n\<ge>N. sizeMB (repeated l n a) = 20"
  using assms
proof (induction "nat \<lfloor>sizeMB a\<rfloor>" arbitrary: a rule: less_induct)
  case less
  show ?case
  proof (cases "sizeMB a \<le> 20")
    case True
    have "\<forall>n\<ge>1. sizeMB (repeated l n a) = 20"
    proof (intro allI impI)
      fix n :: nat assume "1 \<le> n"
      then obtain m where "n = Suc m" by (cases n) auto
      with True show "sizeMB (repeated l n a) = 20" by (simp add: sizeMB_stays)
    qed
    then show ?thesis ..
  next
    case False
    let ?b = "simulateCompression a l"
    from False have lt: "sizeMB ?b < sizeMB a" by (intro sizeMB_shrinks) simp
    have ge: "20 \<le> sizeMB ?b"
      by (simp add: sizeMB_simulateCompression Math_max_ge)
    from less.prems obtain i where i: "sizeMB a = of_int i" by (auto elim: Ints_cases)
    from sizeMB_integral [of a l] obtain j where j: "sizeMB ?b = of_int j"
      by (auto elim: Ints_cases)
    from lt ge i j have "nat \<lfloor>sizeMB ?b\<rfloor> < nat \<lfloor>sizeMB a\<rfloor>" by simp
    from less.hyps [OF this sizeMB_integral]
    obtain N where N: "\<forall>n\<ge>N. sizeMB (repeated l n ?b) = 20" by blast
    have "\<forall>n\<ge>Suc N. sizeMB (repeated l n a) = 20"
    proof (intro allI impI)
      fix n assume "Suc N \<le> n"
      then obtain m where "n = Suc m" "N \<le> m" by (cases n) auto
      with N show "sizeMB (repeated l n a) = 20" by (simp add: repeated_Suc)
    qed
    then show ?thesis ..
  qed
qed

lemma floors_reached:
  "\<exists>N. \<forall>n\<ge>N. polyCount (repeated l n a) = 10000 \<and> sizeMB (repeated l n a) = 20"
proof -
  let ?b = "simulateCompression a l"
  from polyCount_reaches [of "simulateCompression a l" l, OF polyCount_integral]
  obtain N1 where N1: "\<forall>n\<ge>N1. polyCount (repeated l n ?b) = 10000" by blast
  from sizeMB_reaches [of "simulateCompression a l" l, OF sizeMB_integral]
  obtain N2 where N2: "\<forall>n\<ge>N2. sizeMB (repeated l n ?b) = 20" by blast
  have "\<forall>n\<ge>Suc (max N1 N2). polyCount (repeated l n a) = 10000 \<and> sizeMB (repeated l n a) = 20"
  proof (intro allI impI)
    fix n assume "Suc (max N1 N2) \<le> n"
    then obtain m where "n = Suc m" "N1 \<le> m" "N2 \<le> m" by (cases n) auto
    with N1 N2 show "polyCount (repeated l n a) = 10000 \<and> sizeMB (repeated l n a) = 20"
      by (simp add: repeated_Suc)
  qed
  then show ?thesis ..
qed

lemma other_fields_simulateCompression:
  "id' (simulateCompression a l) = id' a \<and> name (simulateCompression a l) = name a \<and>
   tags (simulateCompression a l) = tags a \<and> createdAt (simulateCompression a l) = createdAt a \<and>
   shape (simulateCompression a l) = shape a \<and> color (simulateCompression a l) = color a \<and>
   category (simulateCompression a l) = category a \<and> gltfUrl (simulateCompression a l) = gltfUrl a"
  by (simp add: simulateCompression_def Let_def)

subsection \<open>The transform and its compounding\<close>

definition sample :: Asset where
  \<comment> \<open>the specification's example: 50 000 polygons, 100 MB\<close>
  "sample = (hd INITIAL_ASSETS)\<lparr>polyCount := 50000, sizeMB := 100\<rparr>"

text \<open>
  Claim C4. For every asset and quality level the transform returns
  \<open>polyCount = max(10000, round(polyCount * f))\<close> with \<open>f\<close> = 0.7, 0.4, 0.2 for HIGH, MED,
  LOW and \<open>sizeMB = max(20, round(sizeMB * g))\<close> with \<open>g\<close> = 0.8, 0.5, 0.25, leaving every
  other field as it was. The factor is applied to the current value: the \<open>n+1\<close>-st
  application at a level starts from the result of the \<open>n\<close>-th, a value above its floor
  gets strictly smaller each time, and after finitely many applications both values sit
  at their floors for good.
\<close>

theorem simulateCompression_transform:
  "polyCount (simulateCompression a l)
     = Math_max 10000 (Math_round (fmul (polyCount a) (geometryFactor l)))
   \<and> sizeMB (simulateCompression a l)
     = Math_max 20 (Math_round (fmul (sizeMB a) (textureFactor l)))
   \<and> geometryFactor HIGH = lit_0_7 \<and> geometryFactor MED = lit_0_4 \<and> geometryFactor LOW = lit_0_2
   \<and> textureFactor HIGH = lit_0_8 \<and> textureFactor MED = lit_0_5 \<and> textureFactor LOW = lit_0_25
   \<and> id' (simulateCompression a l) = id' a \<and> name (simulateCompression a l) = name a
   \<and> tags (simulateCompression a l) = tags a \<and> createdAt (simulateCompression a l) = createdAt a
   \<and> shape (simulateCompression a l) = shape a \<and> color (simulateCompression a l) = color a
   \<and> category (simulateCompression a l) = category a \<and> gltfUrl (simulateCompression a l) = gltfUrl a
   \<and> polyCount (repeated l (Suc n) a)
     = Math_max 10000 (Math_round (fmul (polyCount (repeated l n a)) (geometryFactor l)))
   \<and> sizeMB (repeated l (Suc n) a)
     = Math_max 20 (Math_round (fmul (sizeMB (repeated l n a)) (textureFactor l)))
   \<and> (10000 < polyCount (repeated l n a)
        \<longrightarrow> polyCount (repeated l (Suc n) a) < polyCount (repeated l n a))
   \<and> (20 < sizeMB (repeated l n a)
        \<longrightarrow> sizeMB (repeated l (Suc n) a) < sizeMB (repeated l n a))
   \<and> (\<exists>N. \<forall>m\<ge>N. polyCount (repeated l m a) = 10000 \<and> sizeMB (repeated l m a) = 20)"
proof -
  have fields: "id' (simulateCompression a l) = id' a \<and> name (simulateCompression a l) = name a
   \<and> tags (simulateCompression a l) = tags a \<and> createdAt (simulateCompression a l) = createdAt a
   \<and> shape (simulateCompression a l) = shape a \<and> color (simulateCompression a l) = color a
   \<and> category (simulateCompression a l) = category a \<and> gltfUrl (simulateCompression a l) = gltfUrl a"
    using other_fields_simulateCompression [of a l] by simp
  have step: "polyCount (repeated l (Suc n) a)
       = Math_max 10000 (Math_round (fmul (polyCount (repeated l n a)) (geometryFactor l)))"
    "sizeMB (repeated l (Suc n) a)
       = Math_max 20 (Math_round (fmul (sizeMB (repeated l n a)) (textureFactor l)))"
    by (simp_all only: repeated_Suc' polyCount_simulateCompression sizeMB_simulateCompression)
  have shrink: "10000 < polyCount (repeated l n a)
        \<longrightarrow> polyCount (repeated l (Suc n) a) < polyCount (repeated l n a)"
    "20 < sizeMB (repeated l n a)
        \<longrightarrow> sizeMB (repeated l (Suc n) a) < sizeMB (repeated l n a)"
    using polyCount_shrinks [of "repeated l n a" l] sizeMB_shrinks [of "repeated l n a" l]
    by (simp_all add: repeated_Suc')
  show ?thesis
    using fields step shrink floors_reached [of l a]
      polyCount_simulateCompression [of a l] sizeMB_simulateCompression [of a l]
    by (simp only: geometryFactor.simps textureFactor.simps simp_thms)
qed

theorem simulateCompression_transform_witness:
  "polyCount (simulateCompression sample LOW) = 10000
   \<and> sizeMB (simulateCompression sample LOW) = 25
   \<and> 20 < sizeMB (repeated LOW (Suc 0) sample)
   \<and> sizeMB (repeated LOW (Suc (Suc 0)) sample) < sizeMB (repeated LOW (Suc 0) sample)
   \<and> sizeMB (repeated LOW (Suc (Suc 0)) sample) = 20
   \<and> 10000 < polyCount (repeated LOW 0 sample)
   \<and> polyCount (repeated LOW (Suc 0) sample) < polyCount (repeated LOW 0 sample)"
proof -
  have v: "polyCount (simulateCompression sample LOW) = 10000"
    "sizeMB (simulateCompression sample LOW) = 25"
    "sizeMB (repeated LOW (Suc 0) sample) = 25"
    "sizeMB (repeated LOW (Suc (Suc 0)) sample) = 20"
    "polyCount (repeated LOW 0 sample) = 50000"
    by code_simp+
  from simulateCompression_transform [of sample LOW "Suc 0"]
  have s: "20 < sizeMB (repeated LOW (Suc 0) sample)
      \<longrightarrow> sizeMB (repeated LOW (Suc (Suc 0)) sample) < sizeMB (repeated LOW (Suc 0) sample)"
    by blast
  from simulateCompression_transform [of sample LOW 0]
  have p: "10000 < polyCount (repeated LOW 0 sample)
      \<longrightarrow> polyCount (repeated LOW (Suc 0) sample) < polyCount (repeated LOW 0 sample)"
    by blast
  have "20 < sizeMB (repeated LOW (Suc 0) sample)" "10000 < polyCount (repeated LOW 0 sample)"
    by (simp_all add: v)
  with s p v show ?thesis by blast
qed

subsection \<open>The floors\<close>

text \<open>
  Claim C10. For every asset and quality level the result has \<open>polyCount \<ge> 10000\<close> and
  \<open>sizeMB \<ge> 20\<close>, also when the input is below a floor: the value is then raised to the
  floor (5000 polygons at HIGH become 10000), so compression can increase a value.
\<close>

theorem simulateCompression_floors:
  "10000 \<le> polyCount (simulateCompression a l) \<and> 20 \<le> sizeMB (simulateCompression a l)
   \<and> (polyCount a < 10000 \<longrightarrow> polyCount (simulateCompression a l) = 10000
          \<and> polyCount a < polyCount (simulateCompression a l))
   \<and> (sizeMB a < 20 \<longrightarrow> sizeMB (simulateCompression a l) = 20
          \<and> sizeMB a < sizeMB (simulateCompression a l))
   \<and> polyCount (simulateCompression (a\<lparr>polyCount := 5000\<rparr>) HIGH) = 10000
   \<and> \<not> (\<forall>b k. polyCount (simulateCompression b k) \<le> polyCount b)"
proof -
  have ge: "10000 \<le> polyCount (simulateCompression a l)" "20 \<le> sizeMB (simulateCompression a l)"
    by (simp_all add: polyCount_simulateCompression sizeMB_simulateCompression Math_max_ge)
  have p: "polyCount a < 10000 \<longrightarrow> polyCount (simulateCompression a l) = 10000
          \<and> polyCount a < polyCount (simulateCompression a l)"
    using polyCount_at_floor [of a l] by auto
  have s: "sizeMB a < 20 \<longrightarrow> sizeMB (simulateCompression a l) = 20
          \<and> sizeMB a < sizeMB (simulateCompression a l)"
    using sizeMB_at_floor [of a l] by auto
  have e: "polyCount (simulateCompression (a\<lparr>polyCount := 5000\<rparr>) HIGH) = 10000"
    by (rule polyCount_at_floor) simp
  have "\<not> polyCount (simulateCompression (a\<lparr>polyCount := 5000\<rparr>) HIGH) \<le> polyCount (a\<lparr>polyCount := 5000\<rparr>)"
    by (simp add: e)
  then have n: "\<not> (\<forall>b k. polyCount (simulateCompression b k) \<le> polyCount b)" by blast
  from ge p s e n show ?thesis by blast
qed

theorem simulateCompression_floors_witness:
  "polyCount (sample\<lparr>polyCount := 5000, sizeMB := 10\<rparr>) < 10000
   \<and> polyCount (simulateCompression (sample\<lparr>polyCount := 5000, sizeMB := 10\<rparr>) HIGH) = 10000
   \<and> sizeMB (sample\<lparr>polyCount := 5000, sizeMB := 10\<rparr>) < 20
   \<and> sizeMB (simulateCompression (sample\<lparr>polyCount := 5000, sizeMB := 10\<rparr>) HIGH) = 20"
  using simulateCompression_floors [of "sample\<lparr>polyCount := 5000, sizeMB := 10\<rparr>" HIGH]
  by simp

section \<open>Properties of the reducer\<close>

lemma findIndex_ge: "- 1 \<le> findIndex P xs"
  by (induction xs) (auto simp: Let_def)

lemma findIndex_none: "findIndex P xs = - 1 \<longleftrightarrow> (\<forall>x\<in>set xs. \<not> P x)"
proof (induction xs)
  case Nil
  show ?case by simp
next
  case (Cons x xs)
  from findIndex_ge [of P xs] have "findIndex P xs + 1 \<noteq> - 1" by linarith
  with Cons show ?case by (auto simp: Let_def)
qed

definition stale :: State where
  \<comment> \<open>the initial catalogue with a selection that no asset answers to\<close>
  "stale = \<lparr>assets = INITIAL_ASSETS, selectedId = Some ''9'', filter' = [], lod = HIGH\<rparr>"

text \<open>
  Claim C5. When \<open>selectedId\<close> is null, or is the id of no asset of the current sequence,
  \<open>compress_selected\<close> returns the state object it was given: the very reference, nothing
  newly built, and so the same state.
\<close>

theorem compress_unresolved_returns_state:
  assumes "selectedId s = None \<or> (\<forall>a\<in>set (assets s). Some (id' a) \<noteq> selectedId s)"
  shows "reducer_returns s (Compress_selected l) = Same_reference
         \<and> reducer s (Compress_selected l) = s"
proof -
  have "reducer_returns s (Compress_selected l) = Same_reference"
  proof (cases "falsy (selectedId s)")
    case True
    then show ?thesis by simp
  next
    case False
    with assms have "\<forall>a\<in>set (assets s). \<not> Some (id' a) = selectedId s"
      by (auto simp: falsy_def)
    then have "findIndex (\<lambda>a. Some (id' a) = selectedId s) (assets s) = - 1"
      by (simp only: findIndex_none)
    then show ?thesis by (simp add: Let_def)
  qed
  then show ?thesis by (simp add: reducer_def)
qed

theorem compress_unresolved_returns_state_witness:
  "selectedId stale = Some ''9'' \<and> ''9'' \<notin> id' ` set (assets stale)
   \<and> reducer_returns stale (Compress_selected LOW) = Same_reference
   \<and> reducer stale (Compress_selected LOW) = stale
   \<and> reducer_returns (stale\<lparr>selectedId := None\<rparr>) (Compress_selected LOW) = Same_reference"
proof -
  have h: "selectedId stale = Some ''9''" "''9'' \<notin> id' ` set (assets stale)"
    by (simp_all add: stale_def INITIAL_ASSETS_def)
  then have "selectedId stale = None \<or> (\<forall>a\<in>set (assets stale). Some (id' a) \<noteq> selectedId stale)"
    by force
  from compress_unresolved_returns_state [OF this, of LOW]
    compress_unresolved_returns_state [of "stale\<lparr>selectedId := None\<rparr>" LOW]
  show ?thesis using h by simp
qed

text \<open>
  The reducer once more, as a relation with one rule for each \<^verbatim>\<open>return\<close> of the
  source, and the dispatch of a sequence of actions: a run is a derivation.
\<close>

inductive reduces :: "State \<Rightarrow> Action \<Rightarrow> State \<Rightarrow> bool" where
  select: "reduces state (Select i) (state\<lparr>selectedId := Some i\<rparr>)"
| filter: "reduces state (Filter q) (state\<lparr>filter' := q\<rparr>)"
| set_lod: "reduces state (Set_lod l) (state\<lparr>lod := l\<rparr>)"
| compress_unselected:
    "falsy (selectedId state) \<Longrightarrow> reduces state (Compress_selected l) state"
| compress_stale:
    "\<not> falsy (selectedId state)
     \<Longrightarrow> findIndex (\<lambda>a. Some (id' a) = selectedId state) (assets state) = - 1
     \<Longrightarrow> reduces state (Compress_selected l) state"
| compress:
    "\<not> falsy (selectedId state)
     \<Longrightarrow> findIndex (\<lambda>a. Some (id' a) = selectedId state) (assets state) = idx
     \<Longrightarrow> idx \<noteq> - 1
     \<Longrightarrow> reduces state (Compress_selected l)
           (state\<lparr>assets := (assets state)[nat idx := simulateCompression (assets state ! nat idx) l]\<rparr>)"

inductive replays :: "State \<Rightarrow> Action list \<Rightarrow> State \<Rightarrow> bool" where
  finished: "replays state [] state"
| dispatched: "reduces state a mid \<Longrightarrow> replays mid acts final \<Longrightarrow> replays state (a # acts) final"

lemma reduces_reducer: "reduces s a (reducer s a)"
proof (cases a)
  case (Select i)
  then show ?thesis by (simp add: reducer_def reduces.select)
next
  case (Filter q)
  then show ?thesis by (simp add: reducer_def reduces.filter)
next
  case (Set_lod l)
  then show ?thesis by (simp add: reducer_def reduces.set_lod)
next
  case (Compress_selected l)
  show ?thesis
  proof (cases "falsy (selectedId s)")
    case True
    with Compress_selected show ?thesis by (simp add: reducer_def reduces.compress_unselected)
  next
    case nf: False
    show ?thesis
    proof (cases "findIndex (\<lambda>a. Some (id' a) = selectedId s) (assets s) = - 1")
      case True
      with nf Compress_selected show ?thesis by (simp add: reducer_def reduces.compress_stale)
    next
      case False
      from reduces.compress [OF nf refl False, of l] False nf Compress_selected
      show ?thesis by (simp add: reducer_def Let_def)
    qed
  qed
qed

lemma reduces_unique: "reduces s a t \<Longrightarrow> t = reducer s a"
  by (induction rule: reduces.induct) (simp_all add: reducer_def Let_def)

lemma replays_replay: "replays s acts (replay s acts)"
proof (induction acts arbitrary: s)
  case Nil
  show ?case by (simp add: replays.finished)
next
  case (Cons a acts)
  from reduces_reducer [of s a] Cons [of "reducer s a"] show ?case
    by (simp add: replays.dispatched)
qed

lemma replays_unique: "replays s acts u \<Longrightarrow> u = replay s acts"
proof (induction rule: replays.induct)
  case (finished state)
  show ?case by simp
next
  case (dispatched state a mid acts final)
  from reduces_unique [OF dispatched.hyps(1)] dispatched.IH show ?case by simp
qed


text \<open>
  Claim C8. The transition function is deterministic: two runs of the reducer on the same
  state and action end in the same state, and two replays of the same action sequence
  from the same initial state end in the same final state. Every state and action has a
  run, the one the function \<open>reducer\<close> computes.
\<close>

theorem reducer_deterministic:
  "(reduces s a t1 \<and> reduces s a t2 \<longrightarrow> t1 = t2)
   \<and> (replays s acts u1 \<and> replays s acts u2 \<longrightarrow> u1 = u2)
   \<and> reduces s a (reducer s a) \<and> replays s acts (replay s acts)"
proof -
  have "reduces s a t1 \<and> reduces s a t2 \<longrightarrow> t1 = t2"
    using reduces_unique [of s a t1] reduces_unique [of s a t2] by blast
  moreover have "replays s acts u1 \<and> replays s acts u2 \<longrightarrow> u1 = u2"
    using replays_unique [of s acts u1] replays_unique [of s acts u2] by blast
  ultimately show ?thesis using reduces_reducer [of s a] replays_replay [of s acts] by simp
qed

theorem reducer_deterministic_witness:
  "reduces stale (Select ''2'') (stale\<lparr>selectedId := Some ''2''\<rparr>)
   \<and> reducer stale (Select ''2'') = stale\<lparr>selectedId := Some ''2''\<rparr>
   \<and> replays stale [Select ''2'', Compress_selected MED, Filter ''he'']
        (replay stale [Select ''2'', Compress_selected MED, Filter ''he''])
   \<and> lod (replay stale [Select ''2'', Compress_selected MED, Filter ''he'']) = HIGH
   \<and> polyCount (assets (replay stale [Select ''2'', Compress_selected MED, Filter ''he'']) ! 1)
       = 540000"
proof -
  have r: "reducer stale (Select ''2'') = stale\<lparr>selectedId := Some ''2''\<rparr>"
    by (simp add: reducer_def)
  have v: "lod (replay stale [Select ''2'', Compress_selected MED, Filter ''he'']) = HIGH"
    "polyCount (assets (replay stale [Select ''2'', Compress_selected MED, Filter ''he'']) ! 1)
       = 540000" by code_simp+
  from reducer_deterministic [of stale "Select ''2''" "reducer stale (Select ''2'')"
      "reducer stale (Select ''2'')" "[Select ''2'', Compress_selected MED, Filter ''he'']"
      "replay stale [Select ''2'', Compress_selected MED, Filter ''he'']"
      "replay stale [Select ''2'', Compress_selected MED, Filter ''he'']"]
  have "reduces stale (Select ''2'') (reducer stale (Select ''2''))"
    "replays stale [Select ''2'', Compress_selected MED, Filter ''he'']
        (replay stale [Select ''2'', Compress_selected MED, Filter ''he''])" by blast+
  with r v show ?thesis by simp
qed

section \<open>Filtering (hooks/useAssetFilterSort, and the inline filter of App)\<close>



















section \<open>Sorting (hooks/useAssetFilterSort)\<close>



















subsection \<open>The insertion sort\<close>












subsection \<open>The comparators\<close>














section \<open>The compression job (hooks/useCompressionJob)\<close>


























subsection \<open>Which timer fires next\<close>





subsection \<open>Firing a timer\<close>








section \<open>Normalisation (Viewer/GLTFAsset, and GLTFAsset of App)\<close>

text \<open>
  The numbers of the scene graph can leave the finite range (a division by zero, an
  overflow), so they carry the infinities and \<open>NaN\<close>. Signed zeros are not told apart;
  the one division by zero below divides by a difference \<open>x - x\<close>, which is \<open>+0\<close>.
\<close>

datatype jsnum = Fin rat | PosInf | NegInf | NaN

definition to_double :: "rat \<Rightarrow> jsnum" where
  \<comment> \<open>round, and overflow to an infinity from \<open>2 ^ 1024\<close> on, that is when the binary
     exponent of the rounded value reaches 1024\<close>
  "to_double x =
     (let r = fl x
      in if r \<noteq> 0 \<and> 1024 \<le> expo r then (if 0 < r then PosInf else NegInf) else Fin r)"

fun jneg :: "jsnum \<Rightarrow> jsnum" where
  "jneg (Fin a) = Fin (- a)"
| "jneg PosInf = NegInf"
| "jneg NegInf = PosInf"
| "jneg NaN = NaN"

fun jadd :: "jsnum \<Rightarrow> jsnum \<Rightarrow> jsnum" where
  "jadd NaN v = NaN"
| "jadd u NaN = NaN"
| "jadd (Fin a) (Fin b) = to_double (a + b)"
| "jadd PosInf NegInf = NaN"
| "jadd NegInf PosInf = NaN"
| "jadd PosInf v = PosInf"
| "jadd NegInf v = NegInf"
| "jadd (Fin a) v = v"

definition jsub :: "jsnum \<Rightarrow> jsnum \<Rightarrow> jsnum" where
  "jsub u v = jadd u (jneg v)"

fun jsign :: "jsnum \<Rightarrow> int" where
  "jsign (Fin a) = sgn \<lfloor>sgn a\<rfloor>"
| "jsign PosInf = 1"
| "jsign NegInf = - 1"
| "jsign NaN = 0"

definition jmul :: "jsnum \<Rightarrow> jsnum \<Rightarrow> jsnum" where
  "jmul u v =
     (if u = NaN \<or> v = NaN then NaN
      else (case (u, v) of
              (Fin a, Fin b) \<Rightarrow> to_double (a * b)
            | _ \<Rightarrow> (let s = jsign u * jsign v
                    in if s = 0 then NaN else if 0 < s then PosInf else NegInf)))"

definition jdiv :: "jsnum \<Rightarrow> jsnum \<Rightarrow> jsnum" where
  "jdiv u v =
     (if u = NaN \<or> v = NaN then NaN
      else (case (u, v) of
              (Fin a, Fin b) \<Rightarrow>
                (if b = 0 then (if a = 0 then NaN else if 0 < a then PosInf else NegInf)
                 else to_double (a / b))
            | (Fin a, _) \<Rightarrow> Fin 0
            | (_, Fin b) \<Rightarrow> (if 0 < jsign u * (if b < 0 then - 1 else 1) then PosInf else NegInf)
            | _ \<Rightarrow> NaN))"

fun jless :: "jsnum \<Rightarrow> jsnum \<Rightarrow> bool" where
  "jless NaN v = False"
| "jless u NaN = False"
| "jless (Fin a) (Fin b) = (a < b)"
| "jless PosInf v = False"
| "jless u PosInf = True"
| "jless NegInf v = (v \<noteq> NegInf)"
| "jless (Fin a) NegInf = False"

definition Math_max2 :: "jsnum \<Rightarrow> jsnum \<Rightarrow> jsnum" where
  "Math_max2 u v = (if u = NaN \<or> v = NaN then NaN else if jless u v then v else u)"

definition Math_min2 :: "jsnum \<Rightarrow> jsnum \<Rightarrow> jsnum" where
  "Math_min2 u v = (if u = NaN \<or> v = NaN then NaN else if jless v u then v else u)"

definition or_else :: "jsnum \<Rightarrow> jsnum \<Rightarrow> jsnum" where
  "or_else u v = (if u = Fin 0 \<or> u = NaN then v else u)"

text \<open>The parts of three.js the component uses: \<^verbatim>\<open>Vector3\<close>, \<^verbatim>\<open>Box3\<close> with
  \<^verbatim>\<open>isEmpty\<close>, \<^verbatim>\<open>getSize\<close> and \<^verbatim>\<open>getCenter\<close>, and an \<^verbatim>\<open>Object3D\<close> reduced to
  its root transform and the points of its geometry.\<close>

datatype Vector3 = Vector3 (vx: jsnum) (vy: jsnum) (vz: jsnum)

definition Vector3_sub :: "Vector3 \<Rightarrow> Vector3 \<Rightarrow> Vector3" where
  "Vector3_sub a b = Vector3 (jsub (vx a) (vx b)) (jsub (vy a) (vy b)) (jsub (vz a) (vz b))"

definition Vector3_add :: "Vector3 \<Rightarrow> Vector3 \<Rightarrow> Vector3" where
  "Vector3_add a b = Vector3 (jadd (vx a) (vx b)) (jadd (vy a) (vy b)) (jadd (vz a) (vz b))"

definition multiplyScalar :: "Vector3 \<Rightarrow> jsnum \<Rightarrow> Vector3" where
  "multiplyScalar a k = Vector3 (jmul (vx a) k) (jmul (vy a) k) (jmul (vz a) k)"

definition setScalar :: "jsnum \<Rightarrow> Vector3" where
  "setScalar k = Vector3 k k k"

record Box3 =
  min' :: Vector3
  max' :: Vector3

definition isEmpty :: "Box3 \<Rightarrow> bool" where
  "isEmpty b \<longleftrightarrow> jless (vx (max' b)) (vx (min' b)) \<or> jless (vy (max' b)) (vy (min' b))
                 \<or> jless (vz (max' b)) (vz (min' b))"

definition getSize :: "Box3 \<Rightarrow> Vector3" where
  "getSize b = (if isEmpty b then Vector3 (Fin 0) (Fin 0) (Fin 0) else Vector3_sub (max' b) (min' b))"

definition getCenter :: "Box3 \<Rightarrow> Vector3" where
  "getCenter b = (if isEmpty b then Vector3 (Fin 0) (Fin 0) (Fin 0)
                  else multiplyScalar (Vector3_add (min' b) (max' b)) (Fin (1 / 2)))"

record Object3D =
  position :: Vector3
  rotation :: Vector3
  scale :: Vector3
  geometry :: "Vector3 list"

text \<open>
  Scene graphs are objects on a heap: \<^verbatim>\<open>useGLTF\<close> hands every consumer of a URL the same
  cached object, so a scene is a reference into a store and a write to it is seen by
  all. \<^verbatim>\<open>skeletonClone\<close> allocates a copy at a fresh reference.
\<close>

record store =
  objects :: "nat \<Rightarrow> Object3D option"
  next_ref :: nat

definition store_update :: "store \<Rightarrow> nat \<Rightarrow> (Object3D \<Rightarrow> Object3D) \<Rightarrow> store" where
  "store_update st r f =
     st\<lparr>objects := (\<lambda>k. if k = r then map_option f (objects st k) else objects st k)\<rparr>"

definition skeletonClone :: "store \<Rightarrow> nat \<Rightarrow> (nat \<times> store) option" where
  "skeletonClone st src =
     (case objects st src of
        None \<Rightarrow> None
      | Some obj \<Rightarrow>
          Some (next_ref st,
                st\<lparr>objects := (\<lambda>k. if k = next_ref st then Some obj else objects st k),
                   next_ref := next_ref st + 1\<rparr>))"

definition TARGET_SIZE :: jsnum where
  "TARGET_SIZE = Fin (3 / 2)"

definition Math_max3 :: "Vector3 \<Rightarrow> jsnum" where
  "Math_max3 v = Math_max2 (Math_max2 (vx v) (vy v)) (vz v)"

text \<open>
  \<^verbatim>\<open>GLTFAsset\<close> of \<^verbatim>\<open>Viewer/GLTFAsset.tsx\<close>, the memo \<^verbatim>\<open>normalized\<close>. The measurement
  \<^verbatim>\<open>new Box3().setFromObject\<close> is three.js's and is a parameter. The result is the
  reference of the normalised copy and the store after the call; \<open>None\<close> when the scene
  is not loaded (the component is suspended then).
\<close>

definition normalized :: "(Object3D \<Rightarrow> Box3) \<Rightarrow> store \<Rightarrow> nat \<Rightarrow> (nat \<times> store) option" where
  "normalized setFromObject st scene =
     (case skeletonClone st scene of
        None \<Rightarrow> None
      | Some (root', st1) \<Rightarrow>
          (let st2 = store_update st1 root'
                       (\<lambda>ob. ob\<lparr>position := Vector3 (Fin 0) (Fin 0) (Fin 0),
                                rotation := Vector3 (Fin 0) (Fin 0) (Fin 0),
                                scale := Vector3 (Fin 1) (Fin 1) (Fin 1)\<rparr>)
           in (case objects st2 root' of
                 None \<Rightarrow> None
               | Some r \<Rightarrow>
                   (let box = setFromObject r;
                        size = getSize box;
                        center = getCenter box;
                        maxDim = or_else (Math_max3 size) (Fin 1);
                        st3 = store_update st2 root'
                                (\<lambda>ob. ob\<lparr>position := Vector3_sub (position ob) center\<rparr>);
                        s = jdiv TARGET_SIZE maxDim;
                        st4 = store_update st3 root' (\<lambda>ob. ob\<lparr>scale := setScalar s\<rparr>)
                    in Some (root', st4)))))"

text \<open>
  \<^verbatim>\<open>GLTFAsset\<close> of the monolithic \<^verbatim>\<open>App\<close>: measures the cached scene itself, moves it,
  and hands the renderer the scale as a property. The result is that scale and the
  store after the call.
\<close>

definition GLTFAsset_App :: "(Object3D \<Rightarrow> Box3) \<Rightarrow> store \<Rightarrow> nat \<Rightarrow> (jsnum \<times> store) option" where
  "GLTFAsset_App setFromObject st scene =
     (case objects st scene of
        None \<Rightarrow> None
      | Some sc \<Rightarrow>
          (let box = setFromObject sc;
               size = getSize box;
               center = getCenter box;
               st1 = store_update st scene
                       (\<lambda>ob. ob\<lparr>position := Vector3_sub (position ob) center\<rparr>);
               maxDim = Math_max3 size;
               scale = jdiv (Fin (3 / 2)) maxDim
           in Some (scale, st1)))"

text \<open>A measurement for concrete inputs: the box of the geometry's points, which is what
  \<^verbatim>\<open>setFromObject\<close> returns for an object whose transform is the identity.\<close>

definition expandByPoint :: "Box3 \<Rightarrow> Vector3 \<Rightarrow> Box3" where
  "expandByPoint b p =
     \<lparr>min' = Vector3 (Math_min2 (vx (min' b)) (vx p)) (Math_min2 (vy (min' b)) (vy p))
                      (Math_min2 (vz (min' b)) (vz p)),
      max' = Vector3 (Math_max2 (vx (max' b)) (vx p)) (Math_max2 (vy (max' b)) (vy p))
                      (Math_max2 (vz (max' b)) (vz p))\<rparr>"

definition makeEmpty :: Box3 where
  "makeEmpty = \<lparr>min' = Vector3 PosInf PosInf PosInf, max' = Vector3 NegInf NegInf NegInf\<rparr>"

definition box_of_geometry :: "Object3D \<Rightarrow> Box3" where
  "box_of_geometry ob = foldl expandByPoint makeEmpty (geometry ob)"

definition identity_object :: "Vector3 list \<Rightarrow> Object3D" where
  "identity_object ps = \<lparr>position = Vector3 (Fin 0) (Fin 0) (Fin 0),
      rotation = Vector3 (Fin 0) (Fin 0) (Fin 0), scale = Vector3 (Fin 1) (Fin 1) (Fin 1),
      geometry = ps\<rparr>"

definition loaded :: "Vector3 list \<Rightarrow> store" where
  "loaded ps = \<lparr>objects = (\<lambda>k. if k = 0 then Some (identity_object ps) else None), next_ref = 1\<rparr>"

definition brick :: "Vector3 list" where
  "brick = [Vector3 (Fin 0) (Fin 0) (Fin 0), Vector3 (Fin 2) (Fin 4) (Fin 8)]"

definition dot :: "Vector3 list" where
  "dot = [Vector3 (Fin 3) (Fin 3) (Fin 3)]"

subsection \<open>The result of normalising\<close>

lemma normalized_result:
  fixes setFromObject :: "Object3D \<Rightarrow> Box3"
  assumes "objects st scene = Some ob"
  defines "box \<equiv> setFromObject (ob\<lparr>position := Vector3 (Fin 0) (Fin 0) (Fin 0),
                                     rotation := Vector3 (Fin 0) (Fin 0) (Fin 0),
                                     scale := Vector3 (Fin 1) (Fin 1) (Fin 1)\<rparr>)"
  shows "\<exists>st'. normalized setFromObject st scene = Some (next_ref st, st')
           \<and> objects st' (next_ref st)
               = Some (ob\<lparr>position := Vector3_sub (Vector3 (Fin 0) (Fin 0) (Fin 0)) (getCenter box),
                        rotation := Vector3 (Fin 0) (Fin 0) (Fin 0),
                        scale := setScalar (jdiv TARGET_SIZE
                                   (or_else (Math_max3 (getSize box)) (Fin 1)))\<rparr>)
           \<and> (\<forall>k. k \<noteq> next_ref st \<longrightarrow> objects st' k = objects st k)"
  using assms(1) unfolding box_def
  by (simp add: normalized_def skeletonClone_def store_update_def Let_def)

lemma TARGET_SIZE_over_1: "jdiv TARGET_SIZE (Fin 1) = Fin (3 / 2)"
  by code_simp

lemma normalized_zero_extent:
  "Math_max3 (getSize box) = Fin 0
   \<Longrightarrow> jdiv TARGET_SIZE (or_else (Math_max3 (getSize box)) (Fin 1)) = Fin (3 / 2)"
  by (simp add: or_else_def TARGET_SIZE_over_1)

lemma normalized_leaves_source:
  assumes "objects st scene = Some ob" and "scene < next_ref st"
  shows "\<exists>r st'. normalized setFromObject st scene = Some (r, st') \<and> r \<noteq> scene
                 \<and> objects st' scene = Some ob"
proof -
  from normalized_result [OF assms(1), of setFromObject] obtain st' where
    n: "normalized setFromObject st scene = Some (next_ref st, st')"
    and f: "\<forall>k. k \<noteq> next_ref st \<longrightarrow> objects st' k = objects st k" by blast
  from assms(2) have "scene \<noteq> next_ref st" by simp
  with f assms(1) have "objects st' scene = Some ob" by simp
  with n \<open>scene \<noteq> next_ref st\<close> show ?thesis by blast
qed


text \<open>
  Claim C6. Normalisation gives the translation \<open>- center\<close> of the bounding box and the
  uniform scale \<open>1.5 / max extent\<close>, a largest extent of zero being replaced by 1 so that
  the scale is 1.5. \<^verbatim>\<open>Viewer/GLTFAsset.tsx\<close> does so (\<open>normalized_result\<close>,
  \<open>normalized_zero_extent\<close>): extents (2, 4, 8) give the scale 3/16 = 0.1875 and the
  translation (-1, -2, -4), a single point gives 1.5. The component of the monolithic
  \<^verbatim>\<open>App\<close> has no guard and divides by the zero extent of a single point: its scale is
  \<open>+\<infinity>\<close>.
\<close>

theorem GLTFAsset_App_divides_by_zero_extent:
  "map_option fst (GLTFAsset_App box_of_geometry (loaded dot) 0) = Some PosInf
   \<and> Math_max3 (getSize (box_of_geometry (identity_object dot))) = Fin 0
   \<and> map_option (\<lambda>(r, st). map_option scale (objects st r))
        (normalized box_of_geometry (loaded dot) 0)
       = Some (Some (Vector3 (Fin (3 / 2)) (Fin (3 / 2)) (Fin (3 / 2))))
   \<and> map_option (\<lambda>(r, st). map_option scale (objects st r))
        (normalized box_of_geometry (loaded brick) 0)
       = Some (Some (Vector3 (Fin (3 / 16)) (Fin (3 / 16)) (Fin (3 / 16))))
   \<and> map_option (\<lambda>(r, st). map_option position (objects st r))
        (normalized box_of_geometry (loaded brick) 0)
       = Some (Some (Vector3 (Fin (- 1)) (Fin (- 2)) (Fin (- 4))))"
  by code_simp


text \<open>
  Claim C7. Normalisation works on a copy and leaves the shared source graph as it was.
  \<^verbatim>\<open>Viewer/GLTFAsset.tsx\<close> does so (\<open>normalized_leaves_source\<close>). The component of the
  monolithic \<^verbatim>\<open>App\<close> subtracts the center from the position of the cached scene
  itself: the source at reference 0 has moved from the origin to (-1, -2, -4).
\<close>

theorem GLTFAsset_App_moves_shared_scene:
  "map_option position (objects (loaded brick) 0) = Some (Vector3 (Fin 0) (Fin 0) (Fin 0))
   \<and> map_option (\<lambda>(k, st). map_option position (objects st 0))
        (GLTFAsset_App box_of_geometry (loaded brick) 0)
       = Some (Some (Vector3 (Fin (- 1)) (Fin (- 2)) (Fin (- 4))))
   \<and> map_option (\<lambda>(r, st). (r, objects st 0)) (normalized box_of_geometry (loaded brick) 0)
       = Some (1, objects (loaded brick) 0)"
  by code_simp

end
